theory Spec2Isabelle
  imports
    Complex_Main
    "HOL-Library.Log_Nat"
    "HOL-Library.Multiset"
    "HOL-Library.Product_Lexorder"
    "HOL-Library.Word"
begin

section \<open>Layout reconstruction: \<^verbatim>\<open>src/utils/layoutEngine.ts\<close>\<close>

text \<open>
  Numbers are JavaScript numbers in the source, that is IEEE 754 doubles. A number is
  modelled by its rational value: the coordinates are finite (no \<^verbatim>\<open>NaN\<close>, no infinities).
  The gaps and the threshold of \<^verbatim>\<open>clusterTextItems\<close> are compared with each other, so
  there each addition, subtraction and multiplication rounds as the double operation
  does. A comparator is used only through the sign of its result, and the difference of
  two doubles has the sign of their exact difference, so the comparators do not round.
  A JavaScript string is a sequence of 16-bit code units.
\<close>

type_synonym js_char = "16 word"
type_synonym js_string = "js_char list"

record BoundingBox =
  box_x :: rat
  box_y :: rat
  box_w :: rat
  box_h :: rat

record TextItem =
  item_text :: js_string
  item_box :: BoundingBox
  fontSize :: rat
  fontName :: js_string

subsection \<open>Rounding to a double\<close>

text \<open>
  The result of an arithmetic operation on doubles is the exact result rounded to the
  nearest double, ties to the even significand. A double has 53 significant bits and
  its exponent is at least \<open>-1022\<close>, so the doubles around a number \<open>x\<close> with
  \<open>2 ^ e \<le> \<bar>x\<bar> < 2 ^ (e + 1)\<close> are the multiples of \<open>2 ^ (max e (-1022) - 52)\<close>. Overflow
  to an infinity and the sign of zero are not modelled.
\<close>

definition pow2 :: "int \<Rightarrow> rat" where
  "pow2 q = (if 0 \<le> q then 2 ^ nat q else 1 / 2 ^ nat (- q))"

definition binaryExponent :: "rat \<Rightarrow> int" where
  "binaryExponent x =
     (case quotient_of \<bar>x\<bar> of
        (a, b) \<Rightarrow> (let e = bitlen a - bitlen b in if pow2 e \<le> \<bar>x\<bar> then e else e - 1))"

definition roundHalfEven :: "rat \<Rightarrow> int" where
  "roundHalfEven m =
     (let f = \<lfloor>m\<rfloor>; r = m - of_int f
      in if r < 1 / 2 then f else if 1 / 2 < r then f + 1 else if even f then f else f + 1)"

definition roundDouble :: "rat \<Rightarrow> rat" where
  "roundDouble x =
     (if x = 0 then 0
      else (let q = max (binaryExponent x) (- 1022) - 52
            in of_int (roundHalfEven (x / pow2 q)) * pow2 q))"

subsection \<open>\<^verbatim>\<open>Array.prototype.sort\<close> with a comparator\<close>

text \<open>
  \<^verbatim>\<open>[...items].sort(cmp)\<close> sorts a copy. Since ECMAScript 2019 the sort is stable, and for a
  consistent comparator every stable sort returns the same list, so an insertion sort
  stands for the engine's algorithm: \<open>a\<close> goes before \<open>b\<close> when \<open>cmp a b \<le> 0\<close>.
\<close>

fun insert_cmp :: "('a \<Rightarrow> 'a \<Rightarrow> rat) \<Rightarrow> 'a \<Rightarrow> 'a list \<Rightarrow> 'a list" where
  "insert_cmp cmp a [] = [a]"
| "insert_cmp cmp a (b # bs) =
     (if cmp a b \<le> 0 then a # b # bs else b # insert_cmp cmp a bs)"

definition sort_cmp :: "('a \<Rightarrow> 'a \<Rightarrow> rat) \<Rightarrow> 'a list \<Rightarrow> 'a list" where
  "sort_cmp cmp xs = foldr (insert_cmp cmp) xs []"

subsection \<open>\<^verbatim>\<open>determineReadingOrder\<close>\<close>

definition bandSize :: rat where
  "bandSize = 20"

text \<open>The comparator of lines 51 to 58.\<close>

definition readingOrderCmp :: "TextItem \<Rightarrow> TextItem \<Rightarrow> rat" where
  "readingOrderCmp a b =
     (let aBand = \<lfloor>box_y (item_box a) / bandSize\<rfloor>;
          bBand = \<lfloor>box_y (item_box b) / bandSize\<rfloor>
      in if aBand \<noteq> bBand then of_int aBand - of_int bBand
         else box_x (item_box a) - box_x (item_box b))"

definition determineReadingOrder :: "TextItem list \<Rightarrow> TextItem list" where
  "determineReadingOrder items = sort_cmp readingOrderCmp items"

subsection \<open>\<^verbatim>\<open>clusterTextItems\<close>\<close>

text \<open>
  The comparator of line 11, \<^verbatim>\<open>a.box.y - b.box.y || a.box.x - b.box.x\<close>: the difference
  of the \<open>y\<close> coordinates when it is not zero, else the difference of the \<open>x\<close> coordinates.
\<close>

definition clusterCmp :: "TextItem \<Rightarrow> TextItem \<Rightarrow> rat" where
  "clusterCmp a b =
     (let d = box_y (item_box a) - box_y (item_box b)
      in if d \<noteq> 0 then d else box_x (item_box a) - box_x (item_box b))"

text \<open>
  The state of the \<^verbatim>\<open>forEach\<close> loop: \<^verbatim>\<open>blocks\<close>, \<^verbatim>\<open>currentBlock\<close> and \<^verbatim>\<open>lastBox\<close>
  (\<open>None\<close> for \<^verbatim>\<open>null\<close>).
\<close>

type_synonym walk = "js_string list list \<times> js_string list \<times> BoundingBox option"

definition Y_THRESHOLD :: rat where
  "Y_THRESHOLD = 15"

text \<open>Lines 27 and 28, in double arithmetic.\<close>

definition verticalGap :: "TextItem \<Rightarrow> BoundingBox \<Rightarrow> rat" where
  "verticalGap item lastBox = \<bar>roundDouble (box_y (item_box item) - box_y lastBox)\<bar>"

definition horizontalGap :: "TextItem \<Rightarrow> BoundingBox \<Rightarrow> rat" where
  "horizontalGap item lastBox =
     \<bar>roundDouble (box_x (item_box item) - roundDouble (box_x lastBox + box_w lastBox))\<bar>"

fun forEachBody :: "rat \<Rightarrow> walk \<Rightarrow> TextItem \<Rightarrow> walk" where
  "forEachBody xThreshold (blocks, currentBlock, None) item =
     (blocks, currentBlock @ [item_text item], Some (item_box item))"
| "forEachBody xThreshold (blocks, currentBlock, Some lastBox) item =
     (if verticalGap item lastBox > Y_THRESHOLD \<or> horizontalGap item lastBox > xThreshold
      then (blocks @ [currentBlock], [item_text item], Some (item_box item))
      else (blocks, currentBlock @ [item_text item], Some (item_box item)))"

definition forEachItems :: "rat \<Rightarrow> TextItem list \<Rightarrow> walk" where
  "forEachItems xThreshold xs = foldl (forEachBody xThreshold) ([], [], None) xs"

text \<open>
  The blocks before normalisation (lines 11 to 41): the sorted copy, the walk, and the
  flush of a non-empty \<^verbatim>\<open>currentBlock\<close>.
\<close>

definition sortedItems :: "TextItem list \<Rightarrow> TextItem list" where
  "sortedItems items = sort_cmp clusterCmp items"

text \<open>
  Line 18: the literal \<^verbatim>\<open>0.15\<close> is the double nearest to 15 hundredths, and the product
  is rounded.
\<close>

definition X_THRESHOLD :: "rat \<Rightarrow> rat" where
  "X_THRESHOLD pageWidth = roundDouble (pageWidth * roundDouble (15 / 100))"

definition rawBlocks :: "TextItem list \<Rightarrow> rat \<Rightarrow> js_string list list" where
  "rawBlocks items pageWidth =
     (case forEachItems (X_THRESHOLD pageWidth) (sortedItems items) of
           (blocks, currentBlock, lastBox) \<Rightarrow>
             if length currentBlock > 0 then blocks @ [currentBlock] else blocks)"

text \<open>
  \<^verbatim>\<open>\s\<close> in a regular expression and \<^verbatim>\<open>trim\<close> use the same set of code units: the
  WhiteSpace and LineTerminator code points of ECMAScript, all in the basic plane.
\<close>

definition isWhiteSpace :: "js_char \<Rightarrow> bool" where
  "isWhiteSpace c \<longleftrightarrow>
     c = 0x9 \<or> c = 0xA \<or> c = 0xB \<or> c = 0xC \<or> c = 0xD \<or> c = 0x20 \<or> c = 0xA0 \<or>
     c = 0x1680 \<or> (0x2000 \<le> c \<and> c \<le> 0x200A) \<or> c = 0x2028 \<or> c = 0x2029 \<or>
     c = 0x202F \<or> c = 0x205F \<or> c = 0x3000 \<or> c = 0xFEFF"

definition SPACE :: js_char where
  "SPACE = 0x20"

text \<open>\<^verbatim>\<open>b.join(' ')\<close>\<close>

fun join :: "js_string list \<Rightarrow> js_string" where
  "join [] = []"
| "join [s] = s"
| "join (s # t # ts) = s @ SPACE # join (t # ts)"

text \<open>
  \<^verbatim>\<open>.replace(/\s+/g, ' ')\<close>: scanning from the left, each maximal run of white space is one
  match of the greedy \<^verbatim>\<open>\s+\<close> and is replaced by one space; the scan goes on after the match.
\<close>

function replaceWhitespace :: "js_string \<Rightarrow> js_string" where
  "replaceWhitespace [] = []"
| "replaceWhitespace (c # cs) =
     (if isWhiteSpace c then SPACE # replaceWhitespace (dropWhile isWhiteSpace cs)
      else c # replaceWhitespace cs)"
  by pat_completeness auto
termination
  by (relation "measure length") (auto simp: length_dropWhile_le less_Suc_eq_le)

text \<open>\<^verbatim>\<open>.trim()\<close> removes the white space at both ends.\<close>

definition trimEnd :: "js_string \<Rightarrow> js_string" where
  "trimEnd s = rev (dropWhile isWhiteSpace (rev s))"

definition trim :: "js_string \<Rightarrow> js_string" where
  "trim s = trimEnd (dropWhile isWhiteSpace s)"

definition clusterTextItems :: "TextItem list \<Rightarrow> rat \<Rightarrow> rat \<Rightarrow> js_string list" where
  "clusterTextItems items pageWidth pageHeight =
     (if length items = 0 then []
      else map (\<lambda>b. trim (replaceWhitespace (join b))) (rawBlocks items pageWidth))"


subsection \<open>Notions used to state the properties of the layout functions\<close>

text \<open>A fragment with the given text, position and width, for the examples.\<close>

abbreviation fragment :: "js_string \<Rightarrow> rat \<Rightarrow> rat \<Rightarrow> rat \<Rightarrow> TextItem" where
  "fragment t x y w \<equiv>
     \<lparr>item_text = t, item_box = \<lparr>box_x = x, box_y = y, box_w = w, box_h = 10\<rparr>,
      fontSize = 12, fontName = []\<rparr>"

abbreviation columnsPage :: "TextItem list" where
  "columnsPage \<equiv>
     [fragment [0x72] 300 5 50, fragment [0x6D] 0 25 50, fragment [0x62] 52 5 40,
      fragment [0x61] 0 0 50]"

abbreviation spacedPage :: "TextItem list" where
  "spacedPage \<equiv>
     [fragment [0x62, 0x20, 0x9] 300 0 50, fragment [0x63] 0 20 50,
      fragment [0x20, 0x61, 0x20, 0x20, 0x65] 0 0 50]"

text \<open>
  The index of the output block that receives the \<open>k\<close>-th fragment of the walk:
  \<^verbatim>\<open>currentBlock\<close> is pushed at the position \<^verbatim>\<open>blocks.length\<close> has when the fragment
  joins it, which is the length of \<^verbatim>\<open>blocks\<close> right after the loop body has run on
  the fragment.
\<close>

definition blockOf :: "rat \<Rightarrow> TextItem list \<Rightarrow> nat \<Rightarrow> nat" where
  "blockOf xThreshold xs k = length (fst (forEachItems xThreshold (take (Suc k) xs)))"

definition textsOf :: "rat \<Rightarrow> TextItem list \<Rightarrow> nat \<Rightarrow> js_string list" where
  "textsOf xThreshold xs j =
     map (\<lambda>k. item_text (xs ! k)) (filter (\<lambda>k. blockOf xThreshold xs k = j) [0..<length xs])"

text \<open>
  The words of a string: it is cut at every white-space code unit, and the empty pieces
  are dropped.
\<close>

fun splitAtWhiteSpace :: "js_string \<Rightarrow> js_string list" where
  "splitAtWhiteSpace [] = [[]]"
| "splitAtWhiteSpace (c # cs) =
     (if isWhiteSpace c then [] # splitAtWhiteSpace cs
      else (case splitAtWhiteSpace cs of [] \<Rightarrow> [[c]] | f # fs \<Rightarrow> (c # f) # fs))"

definition wordsOf :: "js_string \<Rightarrow> js_string list" where
  "wordsOf s = filter (\<lambda>f. f \<noteq> []) (splitAtWhiteSpace s)"

text \<open>Two white-space code units next to each other.\<close>

fun adjacentWhiteSpace :: "js_string \<Rightarrow> bool" where
  "adjacentWhiteSpace (a # b # cs) =
     ((isWhiteSpace a \<and> isWhiteSpace b) \<or> adjacentWhiteSpace (b # cs))"
| "adjacentWhiteSpace cs = False"

section \<open>Playback: the services and the component of \<^verbatim>\<open>src/unnamed/part_001\<close>\<close>

datatype error = Error string

subsection \<open>\<^verbatim>\<open>processRawLayout\<close>\<close>

text \<open>
  The call of the generative service either throws or returns a response, whose
  \<^verbatim>\<open>text\<close> property is a string or \<^verbatim>\<open>undefined\<close> (\<open>None\<close>). Line 38 returns
  \<^verbatim>\<open>response.text || rawText\<close>: the raw text when the property is falsy, that is
  \<^verbatim>\<open>undefined\<close> or the empty string.
\<close>

definition processRawLayout :: "error + js_string option \<Rightarrow> js_string \<Rightarrow> error + js_string" where
  "processRawLayout response rawText =
     (case response of
        Inl e \<Rightarrow> Inl e
      | Inr None \<Rightarrow> Inr rawText
      | Inr (Some t) \<Rightarrow> if t = [] then Inr rawText else Inr t)"

subsection \<open>The data of \<^verbatim>\<open>types.ts\<close>\<close>

datatype block_type = Paragraph | Heading | ListBlock | Table | Sidebar | Math | ChartDesc

record TextBlock =
  block_type :: block_type
  block_content :: js_string
  block_order :: rat
  confidence :: rat

record PageContent =
  pageNumber :: nat
  page_blocks :: "TextBlock list"
  rawText :: js_string

record TTSState =
  isPlaying :: bool
  currentPage :: nat
  currentBlockIndex :: nat
  speed :: rat
  pitch :: rat
  voice :: js_string
  volume :: rat

subsection \<open>The state of the component\<close>

text \<open>
  An audio source node is named by the number of nodes created before it.
  \<^verbatim>\<open>activeSourcesRef\<close> is a JavaScript \<^verbatim>\<open>Set\<close>: a list without repetition, in insertion
  order. \<open>started\<close>, \<open>stopped\<close> and \<open>console\<close> record the calls of \<^verbatim>\<open>source.start\<close>,
  of \<^verbatim>\<open>source.stop\<close> (those that did not throw) and of \<^verbatim>\<open>console.error\<close>.
\<close>

record App =
  ttsState :: TTSState
  currentText :: js_string
  processingStatus :: string
  audioContextRef :: bool
  nextStartTimeRef :: rat
  activeSourcesRef :: "nat list"
  isPlayingRef :: bool
  nodeCount :: nat
  started :: "(nat \<times> rat) list"
  stopped :: "nat list"
  console :: "error list"

definition Set_add :: "nat \<Rightarrow> nat list \<Rightarrow> nat list" where
  "Set_add a xs = (if a \<in> set xs then xs else xs @ [a])"

definition Set_delete :: "nat \<Rightarrow> nat list \<Rightarrow> nat list" where
  "Set_delete a xs = removeAll a xs"

text \<open>
  What the loop cannot decide is given by the environment: the outcome of each call of a
  service, the clock of the audio context, whether \<^verbatim>\<open>stop\<close> throws on a node, and what
  happens while the loop is suspended in an \<^verbatim>\<open>await\<close>. The calls are named by the page
  and block index of the iteration that makes them.
\<close>

datatype event =
    StopPressed      \<comment> \<open>a handler calls \<^verbatim>\<open>stopPlayback\<close>\<close>
  | Rendered         \<comment> \<open>the effect of lines 120 to 122 copies \<^verbatim>\<open>ttsState.isPlaying\<close> into \<^verbatim>\<open>isPlayingRef\<close>\<close>
  | SourceEnded nat  \<comment> \<open>\<^verbatim>\<open>onended\<close> of a node: line 244\<close>

record Env =
  layoutResponse :: "nat \<Rightarrow> error + js_string option"
  generateSpeech :: "nat \<Rightarrow> nat \<Rightarrow> error + 8 word list"
  decodeAudioData :: "nat \<Rightarrow> nat \<Rightarrow> error + rat"
  currentTime :: "nat \<Rightarrow> nat \<Rightarrow> rat"
  stopThrows :: "nat \<Rightarrow> bool"
  duringLayout :: "nat \<Rightarrow> event list"
  duringSpeech :: "nat \<Rightarrow> nat \<Rightarrow> event list"
  duringDecode :: "nat \<Rightarrow> nat \<Rightarrow> event list"
  duringSleep :: "nat \<Rightarrow> nat \<Rightarrow> event list"

text \<open>The initial values of lines 104 to 118.\<close>

definition initialTtsState :: TTSState where
  "initialTtsState =
     \<lparr>isPlaying = False, currentPage = 0, currentBlockIndex = 0, speed = 1, pitch = 1,
      voice = [0x4B, 0x6F, 0x72, 0x65], volume = 1\<rparr>"

definition initialApp :: App where
  "initialApp =
     \<lparr>ttsState = initialTtsState, currentText = [], processingStatus = [],
      audioContextRef = False, nextStartTimeRef = 0, activeSourcesRef = [],
      isPlayingRef = False, nodeCount = 0, started = [], stopped = [], console = []\<rparr>"

text \<open>
  For the examples: the state while a document is being played, and an environment in
  which every call succeeds (the clean-up returns no text, each buffer lasts two seconds,
  the clock stands at 1) and nothing happens during an \<^verbatim>\<open>await\<close>.
\<close>

abbreviation playingTtsState :: TTSState where
  "playingTtsState \<equiv> initialTtsState\<lparr>isPlaying := True\<rparr>"

abbreviation playingApp :: App where
  "playingApp \<equiv>
     initialApp\<lparr>ttsState := playingTtsState, audioContextRef := True, isPlayingRef := True\<rparr>"

abbreviation quietEnv :: Env where
  "quietEnv \<equiv>
     \<lparr>layoutResponse = (\<lambda>p. Inr None), generateSpeech = (\<lambda>p b. Inr [0, 0]),
      decodeAudioData = (\<lambda>p b. Inr 2), currentTime = (\<lambda>p b. 1), stopThrows = (\<lambda>source. False),
      duringLayout = (\<lambda>p. []), duringSpeech = (\<lambda>p b. []), duringDecode = (\<lambda>p b. []),
      duringSleep = (\<lambda>p b. [])\<rparr>"

text \<open>
  The state in which \<^verbatim>\<open>playTTS\<close> calls \<^verbatim>\<open>readLoop\<close> on page \<open>p\<close>: line 201 has set
  \<^verbatim>\<open>isPlaying\<close>, the effect has not run yet. And a document of two pages, of which only the
  first has its block.
\<close>

abbreviation startingApp :: "nat \<Rightarrow> App" where
  "startingApp p \<equiv>
     initialApp\<lparr>ttsState := initialTtsState\<lparr>isPlaying := True, currentPage := p\<rparr>,
                audioContextRef := True\<rparr>"

abbreviation twoPages :: "PageContent list" where
  "twoPages \<equiv>
     [\<lparr>pageNumber = 1,
       page_blocks = [\<lparr>block_type = Paragraph, block_content = [0x61], block_order = 0, confidence = 1\<rparr>],
       rawText = [0x61]\<rparr>,
      \<lparr>pageNumber = 2, page_blocks = [], rawText = [0x62]\<rparr>]"


subsection \<open>\<^verbatim>\<open>stopPlayback\<close>\<close>

text \<open>\<^verbatim>\<open>try { s.stop(); } catch {}\<close>\<close>

definition tryStop :: "(nat \<Rightarrow> bool) \<Rightarrow> App \<Rightarrow> nat \<Rightarrow> App" where
  "tryStop throws s source = (if throws source then s else s\<lparr>stopped := stopped s @ [source]\<rparr>)"

definition stopPlayback :: "Env \<Rightarrow> App \<Rightarrow> App" where
  "stopPlayback env s =
     (let s1 = s\<lparr>ttsState := (ttsState s)\<lparr>isPlaying := False\<rparr>\<rparr>;
          s2 = foldl (tryStop (stopThrows env)) s1 (activeSourcesRef s1);
          s3 = s2\<lparr>activeSourcesRef := []\<rparr>
      in s3\<lparr>nextStartTimeRef := 0\<rparr>)"

fun handleEvent :: "Env \<Rightarrow> App \<Rightarrow> event \<Rightarrow> App" where
  "handleEvent env s StopPressed = stopPlayback env s"
| "handleEvent env s Rendered = s\<lparr>isPlayingRef := isPlaying (ttsState s)\<rparr>"
| "handleEvent env s (SourceEnded source) =
     s\<lparr>activeSourcesRef := Set_delete source (activeSourcesRef s)\<rparr>"

definition await :: "Env \<Rightarrow> event list \<Rightarrow> App \<Rightarrow> App" where
  "await env evs s = foldl (handleEvent env) s evs"

subsection \<open>\<^verbatim>\<open>readLoop\<close>\<close>

text \<open>
  Lines 238 and 241: the start time of a buffer and the next value of
  \<^verbatim>\<open>nextStartTimeRef.current\<close>. The speed is not zero.
\<close>

definition schedule :: "rat \<Rightarrow> rat \<Rightarrow> rat \<Rightarrow> rat \<Rightarrow> rat \<times> rat" where
  "schedule speed' nextStartTime duration now =
     (let startTime = max nextStartTime now
      in (startTime, startTime + duration / speed'))"

text \<open>Lines 232 to 244, once the audio is decoded.\<close>

definition startSource :: "TTSState \<Rightarrow> rat \<Rightarrow> rat \<Rightarrow> App \<Rightarrow> App" where
  "startSource tts duration now s =
     (let source = nodeCount s;
          (startTime, next) = schedule (speed tts) (nextStartTimeRef s) duration now
      in s\<lparr>nodeCount := Suc source,
            started := started s @ [(source, startTime)],
            nextStartTimeRef := next,
            activeSourcesRef := Set_add source (activeSourcesRef s)\<rparr>)"

text \<open>Lines 225 and 226: the text and the cursor are published.\<close>

definition publishBlock :: "nat \<Rightarrow> nat \<Rightarrow> TextBlock \<Rightarrow> App \<Rightarrow> App" where
  "publishBlock pIdx bIdx block s =
     s\<lparr>currentText := block_content block,
       ttsState := (ttsState s)\<lparr>currentPage := pIdx, currentBlockIndex := bIdx\<rparr>\<rparr>"

text \<open>
  Lines 224 to 250, the body of the inner loop after the test of line 222. \<open>tts\<close> is the
  \<^verbatim>\<open>ttsState\<close> the closure has captured. The \<^verbatim>\<open>catch\<close> logs the error of either call.
\<close>

definition blockBody :: "Env \<Rightarrow> TTSState \<Rightarrow> nat \<Rightarrow> nat \<Rightarrow> TextBlock \<Rightarrow> App \<Rightarrow> App" where
  "blockBody env tts pIdx bIdx block s =
     (let s1 = publishBlock pIdx bIdx block s;
          s2 = await env (duringSpeech env pIdx bIdx) s1
      in case generateSpeech env pIdx bIdx of
           Inl e \<Rightarrow> s2\<lparr>console := console s2 @ [e]\<rparr>
         | Inr audioBytes \<Rightarrow>
             (let s3 = await env (duringDecode env pIdx bIdx) s2
              in case decodeAudioData env pIdx bIdx of
                   Inl e \<Rightarrow> s3\<lparr>console := console s3 @ [e]\<rparr>
                 | Inr duration \<Rightarrow>
                     await env (duringSleep env pIdx bIdx)
                       (startSource tts duration (currentTime env pIdx bIdx) s3)))"

text \<open>
  The inner loop, lines 221 to 252. The flag of the result says whether line 222 has
  returned from \<^verbatim>\<open>readLoop\<close>.
\<close>

function blockLoop :: "Env \<Rightarrow> TTSState \<Rightarrow> nat \<Rightarrow> TextBlock list \<Rightarrow> nat \<Rightarrow> App \<Rightarrow> bool \<times> App" where
  "blockLoop env tts pIdx blks bIdx s =
     (if bIdx < length blks then
        (if \<not> isPlayingRef s then (True, s)
         else blockLoop env tts pIdx blks (Suc bIdx) (blockBody env tts pIdx bIdx (blks ! bIdx) s))
      else (False, s))"
  by pat_completeness auto
termination
  by (relation "measure (\<lambda>(env, tts, pIdx, blks, bIdx, s). length blks - bIdx)") auto

declare blockLoop.simps [simp del]

text \<open>Lines 214 to 219: a page without blocks gets the cleaned text as its only block.\<close>

definition analyzePage :: "Env \<Rightarrow> nat \<Rightarrow> PageContent \<Rightarrow> App \<Rightarrow> error + PageContent \<times> App" where
  "analyzePage env pIdx page s =
     (if page_blocks page = [] then
        (case processRawLayout (layoutResponse env pIdx) (rawText page) of
           Inl e \<Rightarrow> Inl e
         | Inr cleaned \<Rightarrow>
             Inr (page\<lparr>page_blocks :=
                        [\<lparr>block_type = Paragraph, block_content = cleaned,
                          block_order = 0, confidence = 1\<rparr>]\<rparr>,
                  (await env (duringLayout env pIdx) s)\<lparr>processingStatus := []\<rparr>))
      else Inr (page, s))"

text \<open>
  The outer loop, lines 211 to 256. \<open>Inl e\<close>: the promise of \<^verbatim>\<open>readLoop\<close> is rejected
  with \<open>e\<close>. The pages are returned because line 217 writes into them.
\<close>

function pageLoop :: "Env \<Rightarrow> TTSState \<Rightarrow> PageContent list \<Rightarrow> nat \<Rightarrow> nat \<Rightarrow> App \<Rightarrow> error + PageContent list \<times> App" where
  "pageLoop env tts pages pIdx bIdx s =
     (if pIdx < length pages then
        (case analyzePage env pIdx (pages ! pIdx) s of
           Inl e \<Rightarrow> Inl e
         | Inr (page, s1) \<Rightarrow>
             (case blockLoop env tts pIdx (page_blocks page) bIdx s1 of
                (True, s2) \<Rightarrow> Inr (pages[pIdx := page], s2)
              | (False, s2) \<Rightarrow> pageLoop env tts (pages[pIdx := page]) (Suc pIdx) 0 s2))
      else Inr (pages,
             s\<lparr>ttsState := (ttsState s)\<lparr>isPlaying := False, currentPage := 0, currentBlockIndex := 0\<rparr>\<rparr>))"
  by pat_completeness auto
termination
  by (relation "measure (\<lambda>(env, tts, pages, pIdx, bIdx, s). length pages - pIdx)") auto

declare pageLoop.simps [simp del]

definition readLoop :: "Env \<Rightarrow> TTSState \<Rightarrow> PageContent list option \<Rightarrow> App \<Rightarrow> error + PageContent list option \<times> App" where
  "readLoop env tts doc s =
     (case doc of
        None \<Rightarrow> Inr (None, s)
      | Some pages \<Rightarrow>
          if \<not> audioContextRef s then Inr (doc, s)
          else (case pageLoop env tts pages (currentPage tts) (currentBlockIndex tts) s of
                  Inl e \<Rightarrow> Inl e
                | Inr (pages', s') \<Rightarrow> Inr (Some pages', s')))"

subsection \<open>Notions used to state the properties of the playback\<close>







section \<open>Properties of the layout functions\<close>

subsection \<open>The sort and its keys\<close>

text \<open>
  When the comparator agrees with a key into a linear order, the sort is the stable
  \<^const>\<open>sort_key\<close> of the library.
\<close>

lemma insert_cmp_insort_key:
  assumes "\<And>a b. cmp a b \<le> 0 \<longleftrightarrow> key a \<le> key b"
  shows "insert_cmp cmp a xs = insort_key key a xs"
  by (induction xs) (simp_all add: assms)

lemma sort_cmp_sort_key:
  assumes "\<And>a b. cmp a b \<le> 0 \<longleftrightarrow> key a \<le> key b"
  shows "sort_cmp cmp xs = sort_key key xs"
  by (induction xs) (simp_all add: sort_cmp_def sort_key_def insert_cmp_insort_key [OF assms])

lemma readingOrderCmp_key:
  "readingOrderCmp a b \<le> 0 \<longleftrightarrow>
   (\<lfloor>box_y (item_box a) / 20\<rfloor>, box_x (item_box a)) \<le> (\<lfloor>box_y (item_box b) / 20\<rfloor>, box_x (item_box b))"
  by (auto simp: readingOrderCmp_def bandSize_def Let_def)

lemma determineReadingOrder_sort_key:
  "determineReadingOrder items =
   sort_key (\<lambda>a. (\<lfloor>box_y (item_box a) / 20\<rfloor>, box_x (item_box a))) items"
  unfolding determineReadingOrder_def by (rule sort_cmp_sort_key) (rule readingOrderCmp_key)

lemma clusterCmp_key:
  "clusterCmp a b \<le> 0 \<longleftrightarrow>
   (box_y (item_box a), box_x (item_box a)) \<le> (box_y (item_box b), box_x (item_box b))"
  by (auto simp: clusterCmp_def Let_def)

lemma sortedItems_sort_key:
  "sortedItems items = sort_key (\<lambda>a. (box_y (item_box a), box_x (item_box a))) items"
  unfolding sortedItems_def by (rule sort_cmp_sort_key) (rule clusterCmp_key)

subsection \<open>The reading order\<close>

text \<open>
  C3. \<^const>\<open>determineReadingOrder\<close> returns a permutation of its input, in ascending
  order of the band \<open>\<lfloor>y / 20\<rfloor>\<close> and, within a band, of \<open>x\<close>; the fragments with the same
  band and the same \<open>x\<close> keep the order they have in the input; the empty list gives the
  empty list.
\<close>

theorem determineReadingOrder_sorted_stable:
  "mset (determineReadingOrder items) = mset items \<and>
   sorted_wrt (\<lambda>a b. \<lfloor>box_y (item_box a) / 20\<rfloor> < \<lfloor>box_y (item_box b) / 20\<rfloor> \<or>
                  (\<lfloor>box_y (item_box a) / 20\<rfloor> = \<lfloor>box_y (item_box b) / 20\<rfloor> \<and>
                   box_x (item_box a) \<le> box_x (item_box b)))
     (determineReadingOrder items) \<and>
   (\<forall>band x. filter (\<lambda>a. \<lfloor>box_y (item_box a) / 20\<rfloor> = band \<and> box_x (item_box a) = x)
                (determineReadingOrder items) =
             filter (\<lambda>a. \<lfloor>box_y (item_box a) / 20\<rfloor> = band \<and> box_x (item_box a) = x) items) \<and>
   determineReadingOrder [] = []"
proof -
  let ?key = "\<lambda>a. (\<lfloor>box_y (item_box a) / 20\<rfloor>, box_x (item_box a))"
  have "sorted (map ?key (sort_key ?key items))"
    by (rule sorted_sort_key)
  then have "sorted_wrt (\<lambda>a b. ?key a \<le> ?key b) (sort_key ?key items)"
    by (simp add: sorted_map)
  then have 1: "sorted_wrt (\<lambda>a b. \<lfloor>box_y (item_box a) / 20\<rfloor> < \<lfloor>box_y (item_box b) / 20\<rfloor> \<or>
                  (\<lfloor>box_y (item_box a) / 20\<rfloor> = \<lfloor>box_y (item_box b) / 20\<rfloor> \<and>
                   box_x (item_box a) \<le> box_x (item_box b))) (sort_key ?key items)"
    by (rule sorted_wrt_mono_rel [rotated]) auto
  have 2: "filter (\<lambda>a. \<lfloor>box_y (item_box a) / 20\<rfloor> = band \<and> box_x (item_box a) = x)
                (sort_key ?key items) =
             filter (\<lambda>a. \<lfloor>box_y (item_box a) / 20\<rfloor> = band \<and> box_x (item_box a) = x) items" for band x
    using sort_key_stable [of ?key "(band, x)" items] by simp
  show ?thesis
    using 1 2 by (simp add: determineReadingOrder_sort_key)
qed

theorem determineReadingOrder_sorted_stable_witness:
  "determineReadingOrder
     [fragment [0x62] 300 5 50, fragment [0x63] 0 25 50, fragment [0x61] 0 19 50, fragment [0x64] 300 0 50] =
     [fragment [0x61] 0 19 50, fragment [0x62] 300 5 50, fragment [0x64] 300 0 50, fragment [0x63] 0 25 50] \<and>
   mset (determineReadingOrder
     [fragment [0x62] 300 5 50, fragment [0x63] 0 25 50, fragment [0x61] 0 19 50, fragment [0x64] 300 0 50]) =
   mset [fragment [0x62] 300 5 50, fragment [0x63] 0 25 50, fragment [0x61] 0 19 50, fragment [0x64] 300 0 50]"
proof -
  have "determineReadingOrder
     [fragment [0x62] 300 5 50, fragment [0x63] 0 25 50, fragment [0x61] 0 19 50, fragment [0x64] 300 0 50] =
     [fragment [0x61] 0 19 50, fragment [0x62] 300 5 50, fragment [0x64] 300 0 50, fragment [0x63] 0 25 50]"
    by code_simp
  moreover have "mset (determineReadingOrder
     [fragment [0x62] 300 5 50, fragment [0x63] 0 25 50, fragment [0x61] 0 19 50, fragment [0x64] 300 0 50]) =
   mset [fragment [0x62] 300 5 50, fragment [0x63] 0 25 50, fragment [0x61] 0 19 50, fragment [0x64] 300 0 50]"
    using determineReadingOrder_sorted_stable
      [of "[fragment [0x62] 300 5 50, fragment [0x63] 0 25 50, fragment [0x61] 0 19 50, fragment [0x64] 300 0 50]"]
    by blast
  ultimately show ?thesis by blast
qed

subsection \<open>Fewer than two fragments\<close>

lemma forEachItems_single: "forEachItems xThreshold [a] = ([], [item_text a], Some (item_box a))"
  by (simp add: forEachItems_def)

text \<open>
  C9. No fragment gives no block, one fragment gives exactly one block (its normalised
  text), and so fewer than two fragments give at most one block.
\<close>

theorem clusterTextItems_small:
  "clusterTextItems [] pageWidth pageHeight = [] \<and>
   clusterTextItems [a] pageWidth pageHeight = [trim (replaceWhitespace (item_text a))] \<and>
   (length items < 2 \<longrightarrow> length (clusterTextItems items pageWidth pageHeight) \<le> 1)"
proof -
  have 1: "clusterTextItems [] pageWidth pageHeight = []"
    by (simp add: clusterTextItems_def)
  have 2: "clusterTextItems [b] pageWidth pageHeight = [trim (replaceWhitespace (item_text b))]" for b
    by (simp add: clusterTextItems_def rawBlocks_def sortedItems_def sort_cmp_def forEachItems_single)
  have 3: "length (clusterTextItems items pageWidth pageHeight) \<le> 1" if "length items < 2"
  proof (cases items)
    case Nil
    then show ?thesis using 1 by simp
  next
    case (Cons b bs)
    with that have "bs = []" by simp
    with Cons show ?thesis using 2 by simp
  qed
  show ?thesis using 1 2 [of a] 3 by simp
qed

theorem clusterTextItems_small_witness:
  "length [fragment [0x20, 0x61, 0x20, 0x20, 0x65] 0 0 50] < 2 \<and>
   clusterTextItems [fragment [0x20, 0x61, 0x20, 0x20, 0x65] 0 0 50] 400 800 = [[0x61, 0x20, 0x65]] \<and>
   length (clusterTextItems [fragment [0x20, 0x61, 0x20, 0x20, 0x65] 0 0 50] 400 800) \<le> 1"
  using clusterTextItems_small [of 400 800 "fragment [0x20, 0x61, 0x20, 0x20, 0x65] 0 0 50"
      "[fragment [0x20, 0x61, 0x20, 0x20, 0x65] 0 0 50]"]
  by (simp add: trim_def trimEnd_def isWhiteSpace_def SPACE_def)

subsection \<open>The walk over the sorted fragments\<close>

lemma forEachItems_snoc:
  "forEachItems X (xs @ [a]) = forEachBody X (forEachItems X xs) a"
  by (simp add: forEachItems_def)

lemma forEachBody_lastBox:
  "snd (snd (forEachBody X w a)) = Some (item_box a)"
proof -
  obtain bs cur lb where w: "w = (bs, cur, lb)" by (cases w)
  show ?thesis unfolding w by (cases lb) (simp_all add: Let_def)
qed

lemma forEachItems_lastBox:
  "xs \<noteq> [] \<Longrightarrow> snd (snd (forEachItems X xs)) = Some (item_box (last xs))"
  by (cases xs rule: rev_cases) (simp_all add: forEachItems_snoc forEachBody_lastBox)

lemma forEachBody_Some:
  "forEachBody X (bs, cur, Some lb) a =
     (if verticalGap a lb > 15 \<or> horizontalGap a lb > X
      then (bs @ [cur], [item_text a], Some (item_box a))
      else (bs, cur @ [item_text a], Some (item_box a)))"
  by (simp add: Y_THRESHOLD_def)

lemma blockOf_prefix:
  "k < length xs \<Longrightarrow> blockOf X (xs @ ys) k = blockOf X xs k"
  by (simp add: blockOf_def)

lemma blockOf_last:
  "blockOf X (xs @ [a]) (length xs) = length (fst (forEachItems X (xs @ [a])))"
  by (simp add: blockOf_def)

lemma blockOf_step:
  assumes "Suc k < length xs"
  shows "blockOf X xs (Suc k) =
         blockOf X xs k +
         (if verticalGap (xs ! Suc k) (item_box (xs ! k)) > 15 \<or>
             horizontalGap (xs ! Suc k) (item_box (xs ! k)) > X
          then 1 else 0)"
proof -
  let ?p = "take (Suc k) xs"
  have ne: "?p \<noteq> []" using assms by auto
  have last: "last ?p = xs ! k"
    using assms by (simp add: take_Suc_conv_app_nth)
  obtain bs cur lb where w: "forEachItems X ?p = (bs, cur, lb)"
    by (cases "forEachItems X ?p")
  have lb: "lb = Some (item_box (xs ! k))"
    using forEachItems_lastBox [OF ne, of X] w last by simp
  have "take (Suc (Suc k)) xs = ?p @ [xs ! Suc k]"
    using assms by (rule take_Suc_conv_app_nth)
  then have "forEachItems X (take (Suc (Suc k)) xs) =
             forEachBody X (bs, cur, Some (item_box (xs ! k))) (xs ! Suc k)"
    using w lb by (simp add: forEachItems_snoc)
  then show ?thesis
    unfolding blockOf_def w forEachBody_Some by simp
qed

lemma textsOf_snoc:
  "textsOf X (xs @ [a]) j =
   textsOf X xs j @ (if blockOf X (xs @ [a]) (length xs) = j then [item_text a] else [])"
proof -
  have "filter (\<lambda>k. blockOf X (xs @ [a]) k = j) [0..<length xs] =
        filter (\<lambda>k. blockOf X xs k = j) [0..<length xs]"
    by (rule filter_cong) (simp_all add: blockOf_prefix)
  moreover have "map (\<lambda>k. item_text ((xs @ [a]) ! k)) (filter (\<lambda>k. blockOf X xs k = j) [0..<length xs]) =
        map (\<lambda>k. item_text (xs ! k)) (filter (\<lambda>k. blockOf X xs k = j) [0..<length xs])"
    by (rule map_cong) (simp_all add: nth_append)
  ultimately show ?thesis
    by (simp add: textsOf_def)
qed

lemma textsOf_above:
  assumes "\<forall>k < length xs. blockOf X xs k < j"
  shows "textsOf X xs j = []"
  using assms by (auto simp: textsOf_def filter_empty_conv)

lemma walk_blocks:
  "xs \<noteq> [] \<Longrightarrow>
   (\<forall>j \<le> length (fst (forEachItems X xs)).
      (fst (forEachItems X xs) @ [fst (snd (forEachItems X xs))]) ! j = textsOf X xs j) \<and>
   (\<forall>k < length xs. blockOf X xs k \<le> length (fst (forEachItems X xs))) \<and>
   fst (snd (forEachItems X xs)) \<noteq> []"
proof (induction xs rule: rev_induct)
  case Nil
  then show ?case by simp
next
  case (snoc a xs)
  show ?case
  proof (cases "xs = []")
    case True
    then show ?thesis
      by (simp add: forEachItems_def textsOf_def blockOf_def)
  next
    case False
    obtain bs cur lb where w: "forEachItems X xs = (bs, cur, lb)"
      by (cases "forEachItems X xs")
    have lb: "lb = Some (item_box (last xs))"
      using forEachItems_lastBox [OF False, of X] w by simp
    from snoc.IH [OF False] w
    have IH1: "\<forall>j \<le> length bs. (bs @ [cur]) ! j = textsOf X xs j"
      and IH2: "\<forall>k < length xs. blockOf X xs k \<le> length bs"
      and IH3: "cur \<noteq> []"
      by simp_all
    let ?far = "verticalGap a (item_box (last xs)) > 15 \<or>
                horizontalGap a (item_box (last xs)) > X"
    have step: "forEachItems X (xs @ [a]) =
                (if ?far then (bs @ [cur], [item_text a], Some (item_box a))
                 else (bs, cur @ [item_text a], Some (item_box a)))"
      unfolding forEachItems_snoc w lb forEachBody_Some ..
    show ?thesis
    proof (cases ?far)
      case True
      then have w': "forEachItems X (xs @ [a]) = (bs @ [cur], [item_text a], Some (item_box a))"
        using step by simp
      have bl: "blockOf X (xs @ [a]) (length xs) = Suc (length bs)"
        unfolding blockOf_last w' by simp
      have 1: "(bs @ [cur] @ [[item_text a]]) ! j = textsOf X (xs @ [a]) j" if "j \<le> Suc (length bs)" for j
      proof (cases "j \<le> length bs")
        case True
        then have "(bs @ [cur] @ [[item_text a]]) ! j = (bs @ [cur]) ! j"
          by (simp add: nth_append)
        also have "\<dots> = textsOf X xs j" using IH1 True by simp
        also have "\<dots> = textsOf X (xs @ [a]) j"
          unfolding textsOf_snoc bl using True by simp
        finally show ?thesis .
      next
        case False
        with that have j: "j = Suc (length bs)" by simp
        have "textsOf X xs j = []"
          by (rule textsOf_above) (use IH2 j in auto)
        then have "textsOf X (xs @ [a]) j = [item_text a]"
          unfolding textsOf_snoc bl using j by simp
        moreover have "(bs @ [cur] @ [[item_text a]]) ! j = [item_text a]"
          unfolding j by (simp add: nth_append)
        ultimately show ?thesis by simp
      qed
      have 2: "blockOf X (xs @ [a]) k \<le> Suc (length bs)" if "k < Suc (length xs)" for k
      proof (cases "k < length xs")
        case True
        then show ?thesis using IH2 by (simp add: blockOf_prefix le_SucI)
      next
        case False
        with that have "k = length xs" by simp
        then show ?thesis using bl by simp
      qed
      show ?thesis unfolding w' using 1 2 by simp
    next
      case False
      then have w': "forEachItems X (xs @ [a]) = (bs, cur @ [item_text a], Some (item_box a))"
        using step by simp
      have bl: "blockOf X (xs @ [a]) (length xs) = length bs"
        unfolding blockOf_last w' by simp
      have 1: "(bs @ [cur @ [item_text a]]) ! j = textsOf X (xs @ [a]) j" if "j \<le> length bs" for j
      proof (cases "j < length bs")
        case True
        then have "(bs @ [cur @ [item_text a]]) ! j = (bs @ [cur]) ! j"
          by (simp add: nth_append)
        also have "\<dots> = textsOf X xs j" using IH1 True by simp
        also have "\<dots> = textsOf X (xs @ [a]) j"
          unfolding textsOf_snoc bl using True by simp
        finally show ?thesis .
      next
        case False
        with that have j: "j = length bs" by simp
        have "(bs @ [cur]) ! length bs = textsOf X xs (length bs)" using IH1 by blast
        then have "textsOf X xs j = cur" unfolding j by simp
        then have "textsOf X (xs @ [a]) j = cur @ [item_text a]"
          unfolding textsOf_snoc bl using j by simp
        moreover have "(bs @ [cur @ [item_text a]]) ! j = cur @ [item_text a]"
          unfolding j by simp
        ultimately show ?thesis by simp
      qed
      have 2: "blockOf X (xs @ [a]) k \<le> length bs" if "k < Suc (length xs)" for k
      proof (cases "k < length xs")
        case True
        then show ?thesis using IH2 by (simp add: blockOf_prefix)
      next
        case False
        with that have "k = length xs" by simp
        then show ?thesis using bl by simp
      qed
      show ?thesis unfolding w' using 1 2 by simp
    qed
  qed
qed

lemma sortedItems_Nil: "sortedItems items = [] \<longleftrightarrow> items = []"
  by (metis length_0_conv length_sort sortedItems_sort_key)

lemma rawBlocks_Nil: "rawBlocks [] W = []"
  by (simp add: rawBlocks_def sortedItems_def sort_cmp_def forEachItems_def)

lemma rawBlocks_texts:
  assumes "items \<noteq> []"
  shows "length (rawBlocks items W) = Suc (length (fst (forEachItems (X_THRESHOLD W) (sortedItems items)))) \<and>
         (\<forall>j < length (rawBlocks items W).
            rawBlocks items W ! j = textsOf (X_THRESHOLD W) (sortedItems items) j) \<and>
         (\<forall>k < length (sortedItems items).
            blockOf (X_THRESHOLD W) (sortedItems items) k < length (rawBlocks items W))"
proof -
  let ?xs = "sortedItems items" and ?X = "X_THRESHOLD W"
  have ne: "?xs \<noteq> []" using assms by (simp add: sortedItems_Nil)
  obtain bs cur lb where w: "forEachItems ?X ?xs = (bs, cur, lb)"
    by (cases "forEachItems ?X ?xs")
  from walk_blocks [OF ne, of ?X] w
  have 1: "\<forall>j \<le> length bs. (bs @ [cur]) ! j = textsOf ?X ?xs j"
    and 2: "\<forall>k < length ?xs. blockOf ?X ?xs k \<le> length bs"
    and 3: "cur \<noteq> []"
    by simp_all
  have r: "rawBlocks items W = bs @ [cur]"
    using w 3 by (simp add: rawBlocks_def)
  show ?thesis
    unfolding r w using 1 2 by (simp add: less_Suc_eq_le)
qed

lemma sortedItems_sorted:
  "mset (sortedItems items) = mset items \<and>
   sorted_wrt (\<lambda>a b. box_y (item_box a) < box_y (item_box b) \<or>
                  (box_y (item_box a) = box_y (item_box b) \<and> box_x (item_box a) \<le> box_x (item_box b)))
     (sortedItems items)"
proof -
  let ?key = "\<lambda>a. (box_y (item_box a), box_x (item_box a))"
  have "sorted (map ?key (sort_key ?key items))"
    by (rule sorted_sort_key)
  then have "sorted_wrt (\<lambda>a b. ?key a \<le> ?key b) (sort_key ?key items)"
    by (simp add: sorted_map)
  then have "sorted_wrt (\<lambda>a b. box_y (item_box a) < box_y (item_box b) \<or>
                  (box_y (item_box a) = box_y (item_box b) \<and> box_x (item_box a) \<le> box_x (item_box b)))
               (sort_key ?key items)"
    by (rule sorted_wrt_mono_rel [rotated]) auto
  then show ?thesis by (simp add: sortedItems_sort_key)
qed

text \<open>The rounding at the numbers of the examples: the literal 0.15, the threshold of a page 612 wide, and numbers that are doubles already.\<close>

lemma roundDouble_examples:
  "roundDouble (15 / 100) = 5404319552844595 / 36028797018963968 \<and>
   X_THRESHOLD 612 = 6459850715509555 / 70368744177664 \<and>
   roundDouble (3 / 10) = 5404319552844595 / 18014398509481984 \<and>
   roundDouble (247 / 2) = 247 / 2 \<and> roundDouble 220 = 220 \<and> roundDouble (- 5) = - 5"
  by code_simp

text \<open>
  C2, as the code has it. After the sort by \<open>y\<close>, then \<open>x\<close>, two fragments that follow
  each other go to different blocks exactly when the vertical gap exceeds 15 or the
  horizontal gap exceeds the threshold, where the gaps \<open>\<bar>y - lastBox.y\<bar>\<close> and
  \<open>\<bar>x - (lastBox.x + lastBox.w)\<bar>\<close> and the threshold \<open>0.15 \<times> pageWidth\<close> are the doubles
  the code computes, each operation rounded. \<^const>\<open>blockOf\<close> is the index of the block
  of a fragment: every index is one of an output block, and the output block \<open>j\<close> is the
  normalised join of the texts of the fragments whose index is \<open>j\<close>, in sorted order.
\<close>

theorem clusterTextItems_split_rule:
  "mset (sortedItems items) = mset items \<and>
   sorted_wrt (\<lambda>a b. box_y (item_box a) < box_y (item_box b) \<or>
                  (box_y (item_box a) = box_y (item_box b) \<and> box_x (item_box a) \<le> box_x (item_box b)))
     (sortedItems items) \<and>
   (\<forall>k. Suc k < length (sortedItems items) \<longrightarrow>
      (blockOf (X_THRESHOLD pageWidth) (sortedItems items) (Suc k) \<noteq>
       blockOf (X_THRESHOLD pageWidth) (sortedItems items) k) =
      (verticalGap (sortedItems items ! Suc k) (item_box (sortedItems items ! k)) > 15 \<or>
       horizontalGap (sortedItems items ! Suc k) (item_box (sortedItems items ! k))
         > X_THRESHOLD pageWidth)) \<and>
   (\<forall>k < length (sortedItems items).
      blockOf (X_THRESHOLD pageWidth) (sortedItems items) k <
      length (clusterTextItems items pageWidth pageHeight)) \<and>
   (\<forall>j < length (clusterTextItems items pageWidth pageHeight).
      clusterTextItems items pageWidth pageHeight ! j =
      trim (replaceWhitespace (join
        (map (\<lambda>k. item_text (sortedItems items ! k))
           (filter (\<lambda>k. blockOf (X_THRESHOLD pageWidth) (sortedItems items) k = j)
              [0..<length (sortedItems items)])))))"
proof (intro conjI allI impI)
  show "mset (sortedItems items) = mset items"
    using sortedItems_sorted by blast
  show "sorted_wrt (\<lambda>a b. box_y (item_box a) < box_y (item_box b) \<or>
                  (box_y (item_box a) = box_y (item_box b) \<and> box_x (item_box a) \<le> box_x (item_box b)))
     (sortedItems items)"
    using sortedItems_sorted by blast
next
  fix k assume "Suc k < length (sortedItems items)"
  from blockOf_step [OF this, of "X_THRESHOLD pageWidth"]
  show "(blockOf (X_THRESHOLD pageWidth) (sortedItems items) (Suc k) \<noteq>
       blockOf (X_THRESHOLD pageWidth) (sortedItems items) k) =
      (verticalGap (sortedItems items ! Suc k) (item_box (sortedItems items ! k)) > 15 \<or>
       horizontalGap (sortedItems items ! Suc k) (item_box (sortedItems items ! k))
         > X_THRESHOLD pageWidth)"
    by simp
next
  fix k assume k: "k < length (sortedItems items)"
  then have "sortedItems items \<noteq> []" by auto
  then have ne: "items \<noteq> []" by (simp add: sortedItems_Nil)
  have "blockOf (X_THRESHOLD pageWidth) (sortedItems items) k < length (rawBlocks items pageWidth)"
    using rawBlocks_texts [OF ne, of pageWidth] k by blast
  then show "blockOf (X_THRESHOLD pageWidth) (sortedItems items) k <
      length (clusterTextItems items pageWidth pageHeight)"
    using ne by (simp add: clusterTextItems_def)
next
  fix j assume j: "j < length (clusterTextItems items pageWidth pageHeight)"
  then have ne: "items \<noteq> []" by (auto simp: clusterTextItems_def)
  show "clusterTextItems items pageWidth pageHeight ! j =
      trim (replaceWhitespace (join
        (map (\<lambda>k. item_text (sortedItems items ! k))
           (filter (\<lambda>k. blockOf (X_THRESHOLD pageWidth) (sortedItems items) k = j)
              [0..<length (sortedItems items)]))))"
  proof -
    have j': "j < length (rawBlocks items pageWidth)"
      using j ne by (simp add: clusterTextItems_def)
    then have "rawBlocks items pageWidth ! j = textsOf (X_THRESHOLD pageWidth) (sortedItems items) j"
      using rawBlocks_texts [OF ne, of pageWidth] by blast
    then show ?thesis
      using j' ne by (simp add: clusterTextItems_def textsOf_def)
  qed
qed

theorem clusterTextItems_split_rule_witness:
  "sortedItems columnsPage =
     [fragment [0x61] 0 0 50, fragment [0x62] 52 5 40, fragment [0x72] 300 5 50,
      fragment [0x6D] 0 25 50] \<and>
   Suc 1 < length (sortedItems columnsPage) \<and>
   X_THRESHOLD 400 = 60 \<and>
   verticalGap (fragment [0x62] 52 5 40) (item_box (fragment [0x61] 0 0 50)) = 5 \<and>
   horizontalGap (fragment [0x62] 52 5 40) (item_box (fragment [0x61] 0 0 50)) = 2 \<and>
   horizontalGap (fragment [0x72] 300 5 50) (item_box (fragment [0x62] 52 5 40)) = 208 \<and>
   blockOf (X_THRESHOLD 400) (sortedItems columnsPage) (Suc 0) =
     blockOf (X_THRESHOLD 400) (sortedItems columnsPage) 0 \<and>
   blockOf (X_THRESHOLD 400) (sortedItems columnsPage) (Suc 1) \<noteq>
     blockOf (X_THRESHOLD 400) (sortedItems columnsPage) 1 \<and>
   clusterTextItems columnsPage 400 800 = [[0x61, 0x20, 0x62], [0x72], [0x6D]]"
proof -
  have s: "sortedItems columnsPage =
     [fragment [0x61] 0 0 50, fragment [0x62] 52 5 40, fragment [0x72] 300 5 50,
      fragment [0x6D] 0 25 50]"
    by code_simp
  have x: "X_THRESHOLD 400 = 60"
    by code_simp
  have v0: "verticalGap (fragment [0x62] 52 5 40) (item_box (fragment [0x61] 0 0 50)) = 5"
    by code_simp
  have h0: "horizontalGap (fragment [0x62] 52 5 40) (item_box (fragment [0x61] 0 0 50)) = 2"
    by code_simp
  have h1: "horizontalGap (fragment [0x72] 300 5 50) (item_box (fragment [0x62] 52 5 40)) = 208"
    by code_simp
  have rule: "\<forall>k. Suc k < length (sortedItems columnsPage) \<longrightarrow>
      (blockOf (X_THRESHOLD 400) (sortedItems columnsPage) (Suc k) \<noteq>
       blockOf (X_THRESHOLD 400) (sortedItems columnsPage) k) =
      (verticalGap (sortedItems columnsPage ! Suc k) (item_box (sortedItems columnsPage ! k)) > 15 \<or>
       horizontalGap (sortedItems columnsPage ! Suc k) (item_box (sortedItems columnsPage ! k))
         > X_THRESHOLD 400)"
    using clusterTextItems_split_rule [of columnsPage 400 800] by blast
  have 0: "blockOf (X_THRESHOLD 400) (sortedItems columnsPage) (Suc 0) =
     blockOf (X_THRESHOLD 400) (sortedItems columnsPage) 0"
    using rule [rule_format, of 0] v0 h0 x by (simp add: s)
  have 1: "blockOf (X_THRESHOLD 400) (sortedItems columnsPage) (Suc 1) \<noteq>
     blockOf (X_THRESHOLD 400) (sortedItems columnsPage) 1"
    using rule [rule_format, of 1] h1 x by (simp add: s)
  have c: "clusterTextItems columnsPage 400 800 = [[0x61, 0x20, 0x62], [0x72], [0x6D]]"
    by code_simp
  show ?thesis using s x v0 h0 h1 0 1 c by simp
qed

text \<open>
  With the gaps and the threshold taken as exact numbers the rule fails on the code,
  in both directions, on a page 612 wide. The doubles nearest to 0.3 and 15.3 are more
  than 15 apart, but their difference rounds to 15 and the two fragments share a block.
  And the fragment at \<open>x = 220\<close>, on the same line, is less than \<open>0.15 \<times> 612\<close> to the right of
  the end of the fragment at \<open>x = 123.5\<close> whose width is the double nearest to 4.7, but the
  sum, the difference and the product round so that the gap exceeds the threshold: two
  blocks.
\<close>

theorem clusterTextItems_exact_gap_counterexample:
  "15 < \<bar>roundDouble (153 / 10) - roundDouble (3 / 10)\<bar> \<and>
   clusterTextItems
     [fragment [0x61] 0 (roundDouble (3 / 10)) 50, fragment [0x62] 50 (roundDouble (153 / 10)) 50]
     612 792 = [[0x61, 0x20, 0x62]] \<and>
   \<bar>220 - (247 / 2 + roundDouble (47 / 10))\<bar> \<le> 15 / 100 * 612 \<and>
   clusterTextItems
     [fragment [0x61] (247 / 2) 0 (roundDouble (47 / 10)), fragment [0x62] 220 0 50]
     612 792 = [[0x61], [0x62]]"
  by code_simp

subsection \<open>The text of a block\<close>

lemma isWhiteSpace_SPACE: "isWhiteSpace SPACE"
  by (simp add: isWhiteSpace_def SPACE_def)

lemma replaceWhitespace_prefix:
  "\<forall>c \<in> set t. \<not> isWhiteSpace c \<Longrightarrow> replaceWhitespace (t @ r) = t @ replaceWhitespace r"
  by (induction t) simp_all

lemma replaceWhitespace_ws:
  "isWhiteSpace c \<Longrightarrow>
   replaceWhitespace (c # cs) = SPACE # replaceWhitespace (dropWhile isWhiteSpace (c # cs))"
  by simp

lemma split_all:
  "\<forall>c \<in> set t. \<not> isWhiteSpace c \<Longrightarrow> splitAtWhiteSpace t = [t]"
  by (induction t) simp_all

lemma split_prefix:
  "\<forall>c \<in> set t. \<not> isWhiteSpace c \<Longrightarrow> isWhiteSpace c \<Longrightarrow> splitAtWhiteSpace (t @ c # cs) = t # splitAtWhiteSpace cs"
  by (induction t) simp_all

lemma split_nonws:
  "\<forall>f \<in> set (splitAtWhiteSpace s). \<forall>c \<in> set f. \<not> isWhiteSpace c"
  by (induction s) (auto split: list.splits)

lemma wordsOf_ws: "isWhiteSpace c \<Longrightarrow> wordsOf (c # cs) = wordsOf cs"
  by (simp add: wordsOf_def)

lemma wordsOf_dropWhile: "wordsOf (dropWhile isWhiteSpace s) = wordsOf s"
  by (induction s) (simp_all add: wordsOf_ws)

lemma wordsOf_all:
  "t \<noteq> [] \<Longrightarrow> \<forall>c \<in> set t. \<not> isWhiteSpace c \<Longrightarrow> wordsOf t = [t]"
  by (simp add: wordsOf_def split_all)

lemma wordsOf_prefix:
  "t \<noteq> [] \<Longrightarrow> \<forall>c \<in> set t. \<not> isWhiteSpace c \<Longrightarrow> isWhiteSpace c \<Longrightarrow>
   wordsOf (t @ c # cs) = t # wordsOf (dropWhile isWhiteSpace (c # cs))"
proof -
  assume t: "t \<noteq> []" "\<forall>c \<in> set t. \<not> isWhiteSpace c" and c: "isWhiteSpace c"
  have "splitAtWhiteSpace (t @ c # cs) = t # splitAtWhiteSpace cs"
    using t(2) c by (rule split_prefix)
  then have "wordsOf (t @ c # cs) = t # wordsOf cs"
    unfolding wordsOf_def using t(1) by simp
  also have "wordsOf cs = wordsOf (c # cs)"
    using c by (simp only: wordsOf_ws)
  also have "\<dots> = wordsOf (dropWhile isWhiteSpace (c # cs))"
    by (simp only: wordsOf_dropWhile)
  finally show ?thesis .
qed

lemma wordsOf_words:
  "\<forall>w \<in> set (wordsOf s). w \<noteq> [] \<and> (\<forall>c \<in> set w. \<not> isWhiteSpace c)"
  using split_nonws [of s] by (auto simp: wordsOf_def)

lemma trimEnd_keep:
  "\<exists>c \<in> set b. \<not> isWhiteSpace c \<Longrightarrow> trimEnd (a @ b) = a @ trimEnd b"
proof -
  assume "\<exists>c \<in> set b. \<not> isWhiteSpace c"
  then obtain c where "c \<in> set (rev b)" and "\<not> isWhiteSpace c" by auto
  then have "dropWhile isWhiteSpace (rev b @ rev a) = dropWhile isWhiteSpace (rev b) @ rev a"
    by (rule dropWhile_append1)
  then show ?thesis by (simp add: trimEnd_def)
qed

lemma trimEnd_last:
  "s \<noteq> [] \<Longrightarrow> \<not> isWhiteSpace (last s) \<Longrightarrow> trimEnd s = s"
  by (cases s rule: rev_cases) (simp_all add: trimEnd_def)

lemma trimEnd_nonws:
  "\<forall>c \<in> set t. \<not> isWhiteSpace c \<Longrightarrow> trimEnd t = t"
  by (cases t rule: rev_cases) (simp_all add: trimEnd_def)

lemma trimEnd_snoc_ws:
  "isWhiteSpace c \<Longrightarrow> trimEnd (t @ [c]) = trimEnd t"
  by (simp add: trimEnd_def)

lemma replaceWhitespace_hd:
  "s \<noteq> [] \<Longrightarrow> \<not> isWhiteSpace (hd s) \<Longrightarrow> \<exists>r. replaceWhitespace s = hd s # r"
  by (cases s) simp_all

lemma wordsOf_hd:
  "s \<noteq> [] \<Longrightarrow> \<not> isWhiteSpace (hd s) \<Longrightarrow> wordsOf s \<noteq> []"
  by (cases s) (auto simp: wordsOf_def split: list.splits)

lemma trimEnd_replaceWhitespace:
  "s = [] \<or> \<not> isWhiteSpace (hd s) \<Longrightarrow> trimEnd (replaceWhitespace s) = join (wordsOf s)"
proof (induction "length s" arbitrary: s rule: less_induct)
  case less
  show ?case
  proof (cases "s = []")
    case True
    then show ?thesis by (simp add: trimEnd_def wordsOf_def)
  next
    case False
    with less.prems have hd: "\<not> isWhiteSpace (hd s)" by simp
    define t where "t = takeWhile (\<lambda>c. \<not> isWhiteSpace c) s"
    define r where "r = dropWhile (\<lambda>c. \<not> isWhiteSpace c) s"
    have s: "s = t @ r" by (simp add: t_def r_def)
    have t_ne: "t \<noteq> []" using False hd by (cases s) (simp_all add: t_def)
    have t_nw: "\<forall>c \<in> set t. \<not> isWhiteSpace c"
      unfolding t_def by (auto dest: set_takeWhileD)
    show ?thesis
    proof (cases r)
      case Nil
      with s t_ne t_nw show ?thesis
        by (simp add: wordsOf_all trimEnd_nonws replaceWhitespace_prefix [of t "[]", simplified])
    next
      case (Cons c cs)
      have c: "isWhiteSpace c"
      proof -
        have "r \<noteq> []" using Cons by simp
        then have "\<not> \<not> isWhiteSpace (hd r)" unfolding r_def by (rule hd_dropWhile)
        then show ?thesis using Cons by simp
      qed
      define r' where "r' = dropWhile isWhiteSpace (c # cs)"
      have len: "length r' < length s"
        unfolding r'_def s Cons using t_ne length_dropWhile_le [of isWhiteSpace "c # cs"]
        by (cases t) simp_all
      have r'_hd: "r' = [] \<or> \<not> isWhiteSpace (hd r')"
        unfolding r'_def using hd_dropWhile [of isWhiteSpace "c # cs"] by blast
      have rw: "replaceWhitespace s = t @ SPACE # replaceWhitespace r'"
        unfolding s Cons r'_def using c t_nw
        by (simp only: replaceWhitespace_prefix replaceWhitespace_ws)
      have ws: "wordsOf s = t # wordsOf r'"
        unfolding s Cons r'_def using t_ne t_nw c by (rule wordsOf_prefix)
      have IH: "trimEnd (replaceWhitespace r') = join (wordsOf r')"
        using less.hyps [OF len r'_hd] .
      show ?thesis
      proof (cases "r' = []")
        case True
        have "trimEnd (t @ [SPACE]) = t"
          using trimEnd_snoc_ws [OF isWhiteSpace_SPACE] trimEnd_nonws [OF t_nw] by simp
        with True rw ws show ?thesis by (simp add: wordsOf_def)
      next
        case False
        with r'_hd have nw: "\<not> isWhiteSpace (hd r')" by simp
        obtain u where u: "replaceWhitespace r' = hd r' # u"
          using replaceWhitespace_hd [OF False nw] by blast
        have "\<exists>x \<in> set (SPACE # replaceWhitespace r'). \<not> isWhiteSpace x"
          using u nw by auto
        then have "trimEnd (t @ SPACE # replaceWhitespace r') = t @ trimEnd (SPACE # replaceWhitespace r')"
          by (rule trimEnd_keep)
        also have "trimEnd (SPACE # replaceWhitespace r') = SPACE # trimEnd (replaceWhitespace r')"
          using trimEnd_keep [of "replaceWhitespace r'" "[SPACE]"] u nw by auto
        finally have 1: "trimEnd (replaceWhitespace s) = t @ SPACE # join (wordsOf r')"
          using rw IH by simp
        obtain w wsr where "wordsOf r' = w # wsr"
          using wordsOf_hd [OF False nw] by (cases "wordsOf r'") auto
        then have "join (t # wordsOf r') = t @ SPACE # join (wordsOf r')" by simp
        with 1 ws show ?thesis by simp
      qed
    qed
  qed
qed

lemma replaceWhitespace_start:
  "s = [] \<or> \<not> isWhiteSpace (hd s) \<Longrightarrow>
   dropWhile isWhiteSpace (replaceWhitespace s) = replaceWhitespace s"
  by (cases s) auto

lemma trim_replaceWhitespace: "trim (replaceWhitespace s) = join (wordsOf s)"
proof (cases "s = [] \<or> \<not> isWhiteSpace (hd s)")
  case True
  then show ?thesis
    by (simp only: trim_def replaceWhitespace_start trimEnd_replaceWhitespace)
next
  case False
  then obtain c cs where s: "s = c # cs" and c: "isWhiteSpace c" by (cases s) auto
  define r where "r = dropWhile isWhiteSpace (c # cs)"
  have r: "r = [] \<or> \<not> isWhiteSpace (hd r)"
    unfolding r_def using hd_dropWhile [of isWhiteSpace "c # cs"] by blast
  have "replaceWhitespace s = SPACE # replaceWhitespace r"
    unfolding s r_def using c by (rule replaceWhitespace_ws)
  then have "trim (replaceWhitespace s) = trimEnd (dropWhile isWhiteSpace (replaceWhitespace r))"
    by (simp add: trim_def isWhiteSpace_SPACE)
  also have "\<dots> = join (wordsOf r)"
    using r by (simp only: replaceWhitespace_start trimEnd_replaceWhitespace)
  also have "\<dots> = join (wordsOf s)"
    unfolding r_def s by (simp only: wordsOf_dropWhile)
  finally show ?thesis .
qed

lemma adjacent_Cons_nonws:
  "\<not> isWhiteSpace a \<Longrightarrow> adjacentWhiteSpace (a # r) = adjacentWhiteSpace r"
  by (cases r) simp_all

lemma adjacent_prefix:
  "\<forall>c \<in> set t. \<not> isWhiteSpace c \<Longrightarrow> adjacentWhiteSpace (t @ r) = adjacentWhiteSpace r"
  by (induction t) (simp_all add: adjacent_Cons_nonws)

lemma adjacent_Cons:
  "adjacentWhiteSpace r \<Longrightarrow> adjacentWhiteSpace (a # r)"
  by (cases r) simp_all

lemma adjacent_infix:
  "isWhiteSpace a \<Longrightarrow> isWhiteSpace b \<Longrightarrow> adjacentWhiteSpace (u @ a # b # v)"
  by (induction u) (simp_all add: adjacent_Cons)

lemma join_words:
  "\<forall>w \<in> set ws. w \<noteq> [] \<and> (\<forall>c \<in> set w. \<not> isWhiteSpace c) \<Longrightarrow>
   \<not> adjacentWhiteSpace (join ws) \<and>
   (ws \<noteq> [] \<longrightarrow> join ws \<noteq> [] \<and> \<not> isWhiteSpace (hd (join ws)) \<and> \<not> isWhiteSpace (last (join ws)))"
proof (induction ws rule: join.induct)
  case 1
  then show ?case by simp
next
  case (2 s)
  then have "\<not> adjacentWhiteSpace (s @ [])"
    by (subst adjacent_prefix) simp_all
  moreover from 2 have "hd s \<in> set s" "last s \<in> set s" by simp_all
  ultimately show ?case using 2 by simp
next
  case (3 s t ts)
  let ?r = "join (t # ts)"
  from 3 have s: "s \<noteq> []" "\<forall>c \<in> set s. \<not> isWhiteSpace c" by simp_all
  from 3 have r: "\<not> adjacentWhiteSpace ?r" "?r \<noteq> []" "\<not> isWhiteSpace (hd ?r)" "\<not> isWhiteSpace (last ?r)"
    by simp_all
  obtain x xs where x: "?r = x # xs" using r(2) by (cases ?r) auto
  have "adjacentWhiteSpace (s @ SPACE # ?r) = adjacentWhiteSpace (SPACE # ?r)"
    using s(2) by (rule adjacent_prefix)
  also have "\<dots> = adjacentWhiteSpace ?r"
    using r(3) unfolding x by simp
  finally have "\<not> adjacentWhiteSpace (s @ SPACE # ?r)" using r(1) by simp
  moreover have "hd (s @ SPACE # ?r) = hd s" using s(1) by simp
  moreover have "last (s @ SPACE # ?r) = last ?r" using r(2) by simp
  moreover have "\<not> isWhiteSpace (hd s)" using s hd_in_set by blast
  ultimately show ?case using r by simp
qed

lemma normalized_shape:
  "\<not> adjacentWhiteSpace (join (wordsOf s)) \<and>
   (join (wordsOf s) \<noteq> [] \<longrightarrow>
      \<not> isWhiteSpace (hd (join (wordsOf s))) \<and> \<not> isWhiteSpace (last (join (wordsOf s))))"
  using join_words [OF wordsOf_words [of s]] by (cases "wordsOf s") auto

text \<open>
  C8. Every block is made from the texts of its fragments joined by spaces, with each
  run of white space replaced by one space and the white space at both ends removed;
  this is the same as the words of the joined text joined by single spaces. So no block
  has two white-space code units next to each other (in particular not two spaces), and
  none begins or ends with white space.
\<close>

theorem clusterTextItems_normalized:
  "clusterTextItems items pageWidth pageHeight =
     map (\<lambda>texts. join (wordsOf (join texts))) (rawBlocks items pageWidth) \<and>
   (\<forall>j < length (clusterTextItems items pageWidth pageHeight).
      clusterTextItems items pageWidth pageHeight ! j =
      trim (replaceWhitespace (join (textsOf (X_THRESHOLD pageWidth) (sortedItems items) j)))) \<and>
   (\<forall>b \<in> set (clusterTextItems items pageWidth pageHeight).
      \<not> adjacentWhiteSpace b \<and>
      (\<forall>u v. b \<noteq> u @ SPACE # SPACE # v) \<and>
      (b \<noteq> [] \<longrightarrow> \<not> isWhiteSpace (hd b) \<and> \<not> isWhiteSpace (last b)))"
proof (intro conjI)
  show eq: "clusterTextItems items pageWidth pageHeight =
     map (\<lambda>texts. join (wordsOf (join texts))) (rawBlocks items pageWidth)"
    by (cases "items = []") (simp_all add: clusterTextItems_def rawBlocks_Nil trim_replaceWhitespace)
  show "\<forall>j < length (clusterTextItems items pageWidth pageHeight).
      clusterTextItems items pageWidth pageHeight ! j =
      trim (replaceWhitespace (join (textsOf (X_THRESHOLD pageWidth) (sortedItems items) j)))"
  proof (cases "items = []")
    case True
    then show ?thesis by (simp add: clusterTextItems_def)
  next
    case False
    have "\<forall>j < length (rawBlocks items pageWidth).
            rawBlocks items pageWidth ! j = textsOf (X_THRESHOLD pageWidth) (sortedItems items) j"
      using rawBlocks_texts [OF False, of pageWidth] by blast
    then show ?thesis
      using False by (simp add: clusterTextItems_def)
  qed
  show "\<forall>b \<in> set (clusterTextItems items pageWidth pageHeight).
      \<not> adjacentWhiteSpace b \<and>
      (\<forall>u v. b \<noteq> u @ SPACE # SPACE # v) \<and>
      (b \<noteq> [] \<longrightarrow> \<not> isWhiteSpace (hd b) \<and> \<not> isWhiteSpace (last b))"
  proof
    fix b assume "b \<in> set (clusterTextItems items pageWidth pageHeight)"
    then obtain texts where b: "b = join (wordsOf (join texts))"
      unfolding eq by auto
    have 1: "\<not> adjacentWhiteSpace b"
      and 2: "b \<noteq> [] \<longrightarrow> \<not> isWhiteSpace (hd b) \<and> \<not> isWhiteSpace (last b)"
      unfolding b using normalized_shape [of "join texts"] by simp_all
    have 3: "b \<noteq> u @ SPACE # SPACE # v" for u v
      using 1 adjacent_infix [OF isWhiteSpace_SPACE isWhiteSpace_SPACE, of u v] by auto
    show "\<not> adjacentWhiteSpace b \<and> (\<forall>u v. b \<noteq> u @ SPACE # SPACE # v) \<and>
      (b \<noteq> [] \<longrightarrow> \<not> isWhiteSpace (hd b) \<and> \<not> isWhiteSpace (last b))"
      using 1 2 3 by blast
  qed
qed

theorem clusterTextItems_normalized_witness:
  "clusterTextItems spacedPage 400 800 = [[0x61, 0x20, 0x65], [0x62], [0x63]] \<and>
   [0x61, 0x20, 0x65] \<in> set (clusterTextItems spacedPage 400 800) \<and>
   \<not> adjacentWhiteSpace [0x61, 0x20, 0x65] \<and>
   join (wordsOf (join [[0x20, 0x61, 0x20, 0x20, 0x65]])) = [0x61, 0x20, 0x65]"
proof -
  have c: "clusterTextItems spacedPage 400 800 = [[0x61, 0x20, 0x65], [0x62], [0x63]]"
    by code_simp
  have "\<forall>b \<in> set (clusterTextItems spacedPage 400 800). \<not> adjacentWhiteSpace b"
    using clusterTextItems_normalized [of spacedPage 400 800] by blast
  then have a: "\<not> adjacentWhiteSpace [0x61, 0x20, 0x65]"
    unfolding c by simp
  have w: "join (wordsOf (join [[0x20, 0x61, 0x20, 0x20, 0x65]])) = [0x61, 0x20, 0x65]"
    by code_simp
  show ?thesis using c a w by simp
qed

section \<open>Properties of the playback\<close>

subsection \<open>The start times\<close>









subsection \<open>Stopping\<close>

lemma foldl_tryStop_fields:
  "activeSourcesRef (foldl (tryStop t) s xs) = activeSourcesRef s \<and>
   nextStartTimeRef (foldl (tryStop t) s xs) = nextStartTimeRef s \<and>
   ttsState (foldl (tryStop t) s xs) = ttsState s"
  by (induction xs arbitrary: s) (simp_all add: tryStop_def)

text \<open>
  C4. Whatever the state is, however many sources are tracked and whichever of them throw
  on \<^verbatim>\<open>stop\<close>, after \<^const>\<open>stopPlayback\<close> no source is tracked and \<^verbatim>\<open>nextStartTime\<close> is
  zero; a second call changes nothing.
\<close>

theorem stopPlayback_clears:
  "activeSourcesRef (stopPlayback env s) = [] \<and>
   nextStartTimeRef (stopPlayback env s) = 0 \<and>
   stopPlayback env (stopPlayback env s) = stopPlayback env s"
  by (simp add: stopPlayback_def Let_def foldl_tryStop_fields)

theorem stopPlayback_clears_witness:
  "activeSourcesRef (stopPlayback (quietEnv\<lparr>stopThrows := (\<lambda>source. source = 1)\<rparr>)
      (playingApp\<lparr>activeSourcesRef := [0, 1, 2], nextStartTimeRef := 7, nodeCount := 3\<rparr>)) = [] \<and>
   nextStartTimeRef (stopPlayback (quietEnv\<lparr>stopThrows := (\<lambda>source. source = 1)\<rparr>)
      (playingApp\<lparr>activeSourcesRef := [0, 1, 2], nextStartTimeRef := 7, nodeCount := 3\<rparr>)) = 0 \<and>
   stopped (stopPlayback (quietEnv\<lparr>stopThrows := (\<lambda>source. source = 1)\<rparr>)
      (playingApp\<lparr>activeSourcesRef := [0, 1, 2], nextStartTimeRef := 7, nodeCount := 3\<rparr>)) = [0, 2]"
  using stopPlayback_clears [of "quietEnv\<lparr>stopThrows := (\<lambda>source. source = 1)\<rparr>"
      "playingApp\<lparr>activeSourcesRef := [0, 1, 2], nextStartTimeRef := 7, nodeCount := 3\<rparr>"]
  by (simp add: stopPlayback_def tryStop_def initialApp_def Let_def)

subsection \<open>The clean-up of a page\<close>

text \<open>
  C10. When the call of the service returns and the text of the response is missing or
  empty, \<^const>\<open>processRawLayout\<close> returns the raw text; a text that is not empty is returned
  as it is, and an error of the call is passed on.
\<close>

theorem processRawLayout_empty_response:
  "processRawLayout (Inr None) raw = Inr raw \<and>
   processRawLayout (Inr (Some [])) raw = Inr raw \<and>
   processRawLayout (Inr (Some (c # cs))) raw = Inr (c # cs) \<and>
   processRawLayout (Inl e) raw = Inl e"
  by (simp add: processRawLayout_def)

theorem processRawLayout_empty_response_witness:
  "processRawLayout (Inr None) [0x68, 0x69] = Inr [0x68, 0x69] \<and>
   processRawLayout (Inr (Some [])) [0x68, 0x69] = Inr [0x68, 0x69] \<and>
   processRawLayout (Inr (Some [0x48, 0x69])) [0x68, 0x69] = Inr [0x48, 0x69] \<and>
   processRawLayout (Inl (Error ''fetch failed'')) [0x68, 0x69] = Inl (Error ''fetch failed'')"
  using processRawLayout_empty_response
    [where raw = "[0x68, 0x69]" and c = "0x48" and cs = "[0x69]" and e = "Error ''fetch failed''"]
  by simp

subsection \<open>A block whose audio cannot be made\<close>
























lemmas run_defs = readLoop_def pageLoop.simps blockLoop.simps analyzePage_def blockBody_def
  publishBlock_def
  await_def startSource_def schedule_def Set_add_def Set_delete_def stopPlayback_def tryStop_def
  initialApp_def initialTtsState_def Let_def processRawLayout_def



subsection \<open>A stop while the audio of a block is being made\<close>

text \<open>
  C6 at a concrete run. The user is on the second page, which has no blocks yet, and
  presses play: line 201 sets \<^verbatim>\<open>isPlaying\<close> and \<^verbatim>\<open>readLoop\<close> starts. The effect sets
  \<^verbatim>\<open>isPlayingRef\<close> while the clean-up is pending, so the test of line 222 passes. While
  \<^verbatim>\<open>generateSpeech\<close> is pending for the block, \<^verbatim>\<open>stopPlayback\<close> is called (it finds no
  source to stop) and the effect clears \<^verbatim>\<open>isPlayingRef\<close>. When the call returns, the loop
  does not read the flag again: it starts source 0 at time 1 and tracks it.
\<close>

theorem readLoop_starts_after_stop:
  "case readLoop
      (quietEnv\<lparr>layoutResponse := (\<lambda>p. Inr (Some [0x62])), duringLayout := (\<lambda>p. [Rendered]),
                 duringSpeech := (\<lambda>p b. [StopPressed, Rendered])\<rparr>)
      (initialTtsState\<lparr>currentPage := 1\<rparr>) (Some twoPages) (startingApp 1) of
     Inl e \<Rightarrow> False
   | Inr (d, s') \<Rightarrow> isPlaying (ttsState s') = False \<and> isPlayingRef s' = False \<and>
        stopped s' = [] \<and> started s' = [(0, 1)] \<and> activeSourcesRef s' = [0] \<and>
        nextStartTimeRef s' = 3 \<and> currentText s' = [0x62]"
  by (simp add: run_defs)

subsection \<open>A clean-up that throws\<close>

text \<open>
  C7 at a concrete run. The user is on the second page, which has no blocks yet, and
  presses play; the call of the clean-up service throws. \<^verbatim>\<open>readLoop\<close> is rejected with
  the error: the raw text of the page is not used and nothing is played.
\<close>

theorem readLoop_rejects_when_cleanup_fails:
  "readLoop (quietEnv\<lparr>layoutResponse := (\<lambda>p. Inl (Error ''fetch failed''))\<rparr>)
      (initialTtsState\<lparr>currentPage := 1\<rparr>) (Some twoPages) (startingApp 1) =
   Inl (Error ''fetch failed'')"
  by (simp add: run_defs)

end
